theory Spec2Isabelle
  imports Main
begin

section \<open>Strings\<close>

text \<open>
  The program is Python; its strings are sequences of code points. They are modelled as
  \<open>string\<close>, read as the code points 0 to 255 (Latin-1), which covers every character
  that the program's patterns, keywords and generated SQL mention. The functions of this
  section are the string methods and regular-expression classes of Python that \<open>app.py\<close>
  calls, restricted to that range; beyond it \<open>str.lower\<close> and \<open>re.IGNORECASE\<close> know
  further letters and \<open>str.isspace\<close> further blanks, which the model does not have.
\<close>

text \<open>\<open>str.isspace\<close> on one character, which is also the class \<open>\s\<close> of \<open>re\<close>:
  TAB to CR, FS to US, space, NEL and the no-break space.\<close>

definition isspace :: "char \<Rightarrow> bool" where
  "isspace c = (let n = (of_char c :: nat)
     in (9 \<le> n \<and> n \<le> 13) \<or> (28 \<le> n \<and> n \<le> 32) \<or> n = 133 \<or> n = 160)"

text \<open>The class \<open>\d\<close> of \<open>re\<close>: the decimal digits.\<close>

definition isdigit :: "char \<Rightarrow> bool" where
  "isdigit c = (let n = (of_char c :: nat) in 48 \<le> n \<and> n \<le> 57)"

text \<open>\<open>str.lower\<close> on one character: A to Z and the upper-case letters of Latin-1
  (0xC0 to 0xDE without the multiplication sign 0xD7) move up by 32.\<close>

definition lower_char :: "char \<Rightarrow> char" where
  "lower_char c = (let n = (of_char c :: nat)
     in if (65 \<le> n \<and> n \<le> 90) \<or> (192 \<le> n \<and> n \<le> 222 \<and> n \<noteq> 215)
        then char_of (n + 32) else c)"

definition lower :: "string \<Rightarrow> string" where
  "lower s = map lower_char s"

definition lstrip :: "string \<Rightarrow> string" where
  "lstrip s = dropWhile isspace s"

definition rstrip :: "string \<Rightarrow> string" where
  "rstrip s = rev (dropWhile isspace (rev s))"

definition strip :: "string \<Rightarrow> string" where
  "strip s = lstrip (rstrip s)"

text \<open>\<open>s.startswith(p)\<close> and \<open>s.endswith(p)\<close>.\<close>

fun startswith :: "string \<Rightarrow> string \<Rightarrow> bool" where
  "startswith s [] = True"
| "startswith [] (p # ps) = False"
| "startswith (c # cs) (p # ps) = (c = p \<and> startswith cs ps)"

definition endswith :: "string \<Rightarrow> string \<Rightarrow> bool" where
  "endswith s p = startswith (rev s) (rev p)"

text \<open>\<open>w in s\<close>: the string \<open>w\<close> occurs in \<open>s\<close>.\<close>

fun contains :: "string \<Rightarrow> string \<Rightarrow> bool" where
  "contains w [] = (w = [])"
| "contains w (c # cs) = (startswith (c # cs) w \<or> contains w cs)"

section \<open>The Safety Gate\<close>

definition forbidden :: "string list" where
  "forbidden = [''drop'', ''delete'', ''update'', ''insert'', ''alter'', ''truncate'',
     ''merge'', ''exec'', ''call'']"

text \<open>The loop of \<open>safe_sql_check\<close> over the forbidden words, with the return after it.\<close>

fun scan_forbidden :: "string list \<Rightarrow> string \<Rightarrow> bool \<times> string" where
  "scan_forbidden [] s = (True, '''')"
| "scan_forbidden (w # ws) s =
     (if contains w s
      then (False, ''Forbidden keyword '' @ [CHR 0x27] @ w @ [CHR 0x27] @ ''.'')
      else scan_forbidden ws s)"

definition safe_sql_check :: "string \<Rightarrow> bool \<times> string" where
  "safe_sql_check sql =
     (if strip sql = [] then (False, ''SQL empty.'')
      else let s = strip (lower sql)
           in if \<not> startswith s ''select'' then (False, ''Only SELECT allowed.'')
              else scan_forbidden forbidden s)"

section \<open>The Prompt Builder\<close>

definition DEFAULT_LIMIT :: nat where
  "DEFAULT_LIMIT = 100"

definition USE_LLM :: bool where
  "USE_LLM = True"

text \<open>\<open>str(n)\<close> for a natural number: its decimal digits, no leading zero.\<close>

function show_nat :: "nat \<Rightarrow> string" where
  "show_nat n = (if n < 10 then [char_of (48 + n)]
                 else show_nat (n div 10) @ [char_of (48 + n mod 10)])"
  by pat_completeness auto
termination
  by (relation "measure id") auto

declare show_nat.simps [simp del]

text \<open>\<open>sep.join(xs)\<close>.\<close>

fun join :: "string \<Rightarrow> string list \<Rightarrow> string" where
  "join sep [] = []"
| "join sep [x] = x"
| "join sep (x # y # ys) = x @ sep @ join sep (y # ys)"

text \<open>The text of consecutive lines of a triple-quoted literal, each line closed by
  its newline.\<close>

definition unlines :: "string list \<Rightarrow> string" where
  "unlines ls = concat (map (\<lambda>l. l @ [CHR 0x0A]) ls)"

definition dquote :: "string \<Rightarrow> string" where
  "dquote s = [CHR 0x22] @ s @ [CHR 0x22]"

definition cols_detail :: "(string \<times> string) list \<Rightarrow> string" where
  "cols_detail columns =
     (if columns \<noteq> [] then join '', '' (map (\<lambda>(c, t). c @ '' ('' @ t @ '')'') columns)
      else ''(unknown)'')"

definition prompt_base :: "string \<Rightarrow> (string \<times> string) list \<Rightarrow> string" where
  "prompt_base table columns = unlines
    [''You are an expert MySQL query generator. Convert natural language questions into valid MySQL SELECT statements.'',
     '''',
     ''IMPORTANT RULES:'',
     ''1. Output ONLY the SQL query'',
     ''2. No explanations, no markdown code blocks, no commentary'',
     ''3. Use LIMIT '' @ show_nat DEFAULT_LIMIT @ '' unless the user specifies a different limit'',
     ''4. Always use proper table and column aliases when needed'',
     ''5. Ensure the query is syntactically correct for MySQL'',
     ''6. Use backticks for table/column names if they contain special characters'',
     '''',
     ''DATABASE INFORMATION:'',
     ''Table: '' @ table,
     ''Columns: '' @ cols_detail columns]"

definition prompt_sample :: "string \<Rightarrow> string" where
  "prompt_sample sample_data = unlines
    ['''',
     ''Sample Data (first 3 rows):'',
     sample_data]"

definition prompt_examples :: string where
  "prompt_examples = unlines
    ['''',
     ''EXAMPLES OF GOOD QUERIES:'',
     '''',
     ''Question: '' @ dquote ''Show me all records'',
     ''SQL: SELECT * FROM `table_name` LIMIT 100;'',
     '''',
     ''Question: '' @ dquote ''Top 5 highest prices'',
     ''SQL: SELECT * FROM `table_name` ORDER BY price DESC LIMIT 5;'',
     '''',
     ''Question: '' @ dquote ''Count by category'',
     ''SQL: SELECT category, COUNT(*) as count FROM `table_name` GROUP BY category LIMIT 100;'',
     '''',
     ''Question: '' @ dquote ''Average price by category'',
     ''SQL: SELECT category, AVG(price) as avg_price FROM `table_name` GROUP BY category LIMIT 100;'',
     '''',
     ''Question: '' @ dquote ''Records where status is active'',
     ''SQL: SELECT * FROM `table_name` WHERE status = 'active' LIMIT 100;'',
     '''',
     ''Question: '' @ dquote ''Total sales by month'',
     ''SQL: SELECT DATE_FORMAT(date_column, '%Y-%m') as month, SUM(sales) as total FROM `table_name` GROUP BY month ORDER BY month DESC LIMIT 100;'']"

definition prompt_error :: "string \<Rightarrow> string" where
  "prompt_error previous_error = unlines
    ['''',
     ''PREVIOUS ATTEMPT FAILED WITH ERROR:'',
     previous_error,
     '''',
     ''Please fix the query to avoid this error.'']"

definition prompt_question :: "string \<Rightarrow> string" where
  "prompt_question question = unlines
    ['''',
     ''USER QUESTION: '' @ question,
     '''',
     ''Generate the MySQL query:'']"

definition build_prompt ::
  "string \<Rightarrow> (string \<times> string) list \<Rightarrow> string \<Rightarrow> string \<Rightarrow> string \<Rightarrow> string" where
  "build_prompt table columns question sample_data previous_error =
     (let prompt = prompt_base table columns;
          prompt = (if sample_data \<noteq> [] then prompt @ prompt_sample sample_data else prompt);
          prompt = prompt @ prompt_examples;
          prompt = (if previous_error \<noteq> [] then prompt @ prompt_error previous_error
                    else prompt);
          prompt = prompt @ prompt_question question
      in strip prompt)"

section \<open>The SQL Extractor\<close>

text \<open>\<open>re.sub(r'```sql\s*', '', raw)\<close>: from left to right, each occurrence of the
  fence with the white space after it is removed, and the scan goes on behind it.\<close>

function sub_sql_fence :: "string \<Rightarrow> string" where
  "sub_sql_fence [] = []"
| "sub_sql_fence (c # cs) =
     (if startswith (c # cs) ''```sql''
      then sub_sql_fence (dropWhile isspace (drop 6 (c # cs)))
      else c # sub_sql_fence cs)"
  by pat_completeness auto
termination
  by (relation "measure length")
     (auto intro: le_less_trans [OF length_dropWhile_le])

text \<open>\<open>re.sub(r'```\s*', '', raw)\<close>.\<close>

function sub_fence :: "string \<Rightarrow> string" where
  "sub_fence [] = []"
| "sub_fence (c # cs) =
     (if startswith (c # cs) ''```''
      then sub_fence (dropWhile isspace (drop 3 (c # cs)))
      else c # sub_fence cs)"
  by pat_completeness auto
termination
  by (relation "measure length")
     (auto intro: le_less_trans [OF length_dropWhile_le])

text \<open>The literal \<open>SELECT\<close> under \<open>re.IGNORECASE\<close> at the start of \<open>s\<close>.\<close>

definition select_here :: "string \<Rightarrow> bool" where
  "select_here s = (lower (take 6 s) = ''select'')"

text \<open>\<open>SELECT[\s\S]*?;\<close> tried at the start of \<open>s\<close>: after the keyword the lazy
  star stops at the first semicolon, and fails when there is none.\<close>

definition match_select_semi :: "string \<Rightarrow> string option" where
  "match_select_semi s =
     (if select_here s
      then (let body = drop 6 s; pre = takeWhile (\<lambda>c. c \<noteq> CHR '';'') body
            in if length pre < length body then Some (take 6 s @ pre @ '';'') else None)
      else None)"

text \<open>\<open>re.search\<close>: the pattern is tried at each position from the left.\<close>

fun search_select_semi :: "string \<Rightarrow> string option" where
  "search_select_semi [] = None"
| "search_select_semi (c # cs) =
     (case match_select_semi (c # cs) of
        Some m \<Rightarrow> Some m
      | None \<Rightarrow> search_select_semi cs)"

text \<open>\<open>re.search(r"(SELECT[\s\S]*)", raw, flags=re.IGNORECASE)\<close>.\<close>

fun search_select_rest :: "string \<Rightarrow> string option" where
  "search_select_rest [] = None"
| "search_select_rest (c # cs) =
     (if select_here (c # cs) then Some (c # cs) else search_select_rest cs)"

definition extract_sql :: "string \<Rightarrow> string" where
  "extract_sql raw0 =
     (let raw = sub_sql_fence raw0;
          raw = sub_fence raw;
          candidate =
            (case search_select_semi raw of
               Some m \<Rightarrow> strip m
             | None \<Rightarrow>
                 (case search_select_rest raw of
                    Some m \<Rightarrow> strip m
                  | None \<Rightarrow> ''''));
          candidate = (if candidate \<noteq> [] \<and> \<not> endswith candidate '';''
                       then candidate @ '';'' else candidate)
      in if candidate \<noteq> [] then strip candidate else '''')"

section \<open>The fast-path pattern detector\<close>

text \<open>\<open>int(ds)\<close> on a string of decimal digits. The interpreter's limit on the length
  of such a string (4300 digits by default, from Python 3.11 on) is a setting of the
  installation and is not modelled.\<close>

definition int_of_digits :: "string \<Rightarrow> nat" where
  "int_of_digits ds = foldl (\<lambda>a c. 10 * a + (of_char c - 48)) 0 ds"

text \<open>\<open>(top|first)\s+(\d+)\<close> tried at the start of \<open>s\<close>; the result is group 2. Both
  repetitions are greedy, and giving white space back cannot help, since what follows
  it must be a digit.\<close>

definition match_top_n :: "string \<Rightarrow> string option" where
  "match_top_n s =
     (let after = (if startswith s ''top'' then Some (drop 3 s)
                   else if startswith s ''first'' then Some (drop 5 s)
                   else None)
      in case after of
           None \<Rightarrow> None
         | Some t \<Rightarrow>
             (let ds = takeWhile isdigit (dropWhile isspace t)
              in if takeWhile isspace t = [] \<or> ds = [] then None else Some ds))"

fun search_top_n :: "string \<Rightarrow> string option" where
  "search_top_n [] = None"
| "search_top_n (c # cs) =
     (case match_top_n (c # cs) of
        Some ds \<Rightarrow> Some ds
      | None \<Rightarrow> search_top_n cs)"

definition detect_top_n :: "string \<Rightarrow> nat option" where
  "detect_top_n q0 =
     (let q = strip (lower q0)
      in case search_top_n q of
           Some ds \<Rightarrow> Some (int_of_digits ds)
         | None \<Rightarrow> None)"

section \<open>Session state, the outside world and the handlers\<close>

record credentials =
  host :: string
  port :: string
  database :: string
  username :: string
  password :: string

type_synonym dataframe = "string list list"

text \<open>The keys of \<open>st.session_state\<close> that the handlers read or write.\<close>

record session_state =
  db_credentials :: "credentials option"
  selected_table :: "string option"
  generated_sql :: string
  last_raw_llm :: string
  sql_preview :: string
  last_error :: string
  last_question :: string

text \<open>What the generation endpoint answers: a failure with the text of the exception,
  or a JSON object, given by the \<open>str\<close> of its fields and the \<open>str\<close> of the whole.\<close>

datatype http_result = HttpError string | HttpJson "(string \<times> string) list" string

text \<open>
  The database, the generation endpoint and the SQL formatter are outside the program.
  They are parameters of the model: \<open>db_columns\<close> is the query of \<open>get_columns\<close>,
  \<open>db_sample\<close> that of \<open>get_sample_data\<close>, \<open>db_run\<close> that of \<open>run_sql\<close> (a frame,
  or the text of the exception), \<open>llm_post\<close> the HTTP request of \<open>call_llm\<close>, and
  \<open>format_sql\<close> is \<open>sqlparse.format\<close> (\<open>None\<close> when it raises).
\<close>

record world =
  db_columns :: "credentials option \<Rightarrow> string option \<Rightarrow> (string \<times> string) list"
  db_sample :: "credentials option \<Rightarrow> string option \<Rightarrow> string"
  db_run :: "credentials option \<Rightarrow> string \<Rightarrow> string + dataframe"
  llm_post :: "string \<Rightarrow> http_result"
  format_sql :: "string \<Rightarrow> string option"

text \<open>What a handler shows to the user.\<close>

datatype ui_message =
    EnterQuestion
  | DirectSqlGenerated nat
  | SqlGenerated
  | LlmNoSql
  | LlmDisabled
  | Blocked string
  | ExecutionError string
  | QueryReturned nat
  | ShowFrame dataframe

text \<open>What a handler does, in order: the calls that leave the program, the messages,
  and an exception nobody catches.\<close>

datatype event =
    GetColumns "string option"
  | GetSample "string option"
  | LlmPost string
  | RunSql string
  | Ui ui_message
  | Uncaught string

text \<open>An f-string prints \<open>None\<close> as the word.\<close>

definition str_opt :: "string option \<Rightarrow> string" where
  "str_opt t = (case t of None \<Rightarrow> ''None'' | Some s \<Rightarrow> s)"

definition pretty_sql :: "world \<Rightarrow> string \<Rightarrow> string" where
  "pretty_sql w sql = (case format_sql w sql of Some r \<Rightarrow> r | None \<Rightarrow> sql)"

definition run_sql :: "world \<Rightarrow> credentials option \<Rightarrow> string \<Rightarrow> dataframe option \<times> string" where
  "run_sql w creds sql =
     (case db_run w creds sql of
        Inr df \<Rightarrow> (Some df, '''')
      | Inl ex \<Rightarrow> (None, ex))"

text \<open>The loop of \<open>call_llm\<close> over the field names of the answer.\<close>

fun first_field :: "string list \<Rightarrow> (string \<times> string) list \<Rightarrow> string" where
  "first_field [] data = ''''"
| "first_field (k # ks) data =
     (case map_of data k of
        Some v \<Rightarrow> strip v
      | None \<Rightarrow> first_field ks data)"

definition call_llm ::
  "world \<Rightarrow> string option \<Rightarrow> (string \<times> string) list \<Rightarrow> string \<Rightarrow> credentials option \<Rightarrow>
   string \<Rightarrow> (string \<times> string) \<times> event list" where
  "call_llm w table cols question creds retry_error =
     (let sample_data = db_sample w creds table;
          prompt = build_prompt (str_opt table) cols question sample_data retry_error;
          evs = [GetSample table, LlmPost prompt]
      in case llm_post w prompt of
           HttpError e \<Rightarrow> ((''[LLM ERROR: '' @ e @ '']'', ''''), evs)
         | HttpJson data whole \<Rightarrow>
             (let raw = first_field [''response'', ''text'', ''output'', ''content''] data;
                  raw = (if raw = [] then whole else raw)
              in ((raw, extract_sql raw), evs)))"

text \<open>The text stored as raw output on the fast path. The source has the dash U+2013
  between the words, which is outside the range of \<open>char\<close>; a hyphen stands for it.\<close>

definition bypass_note :: string where
  "bypass_note = ''Bypass LLM - top N detected.''"

text \<open>The branch of the generate handler that synthesizes the query itself.\<close>

definition fast_path :: "world \<Rightarrow> session_state \<Rightarrow> nat \<Rightarrow> string \<Rightarrow> session_state \<times> event list" where
  "fast_path w st n table =
     (let sql = ''SELECT * FROM `'' @ table @ ''` LIMIT '' @ show_nat n @ '';''
      in (st\<lparr>generated_sql := pretty_sql w sql,
              sql_preview := pretty_sql w sql,
              last_raw_llm := bypass_note\<rparr>,
          [Ui (DirectSqlGenerated n)]))"

text \<open>The other branch: the columns are fetched and the Generation Client is called.\<close>

definition llm_path :: "world \<Rightarrow> session_state \<Rightarrow> string \<Rightarrow> session_state \<times> event list" where
  "llm_path w st user_q =
     (let creds = db_credentials st;
          cols = db_columns w creds (selected_table st);
          stub = ''SELECT * FROM `'' @ str_opt (selected_table st) @ ''` LIMIT 100;''
      in if USE_LLM
         then (case call_llm w (selected_table st) cols user_q creds '''' of
                 ((raw, sql), evs) \<Rightarrow>
                   (if sql \<noteq> [] \<and> strip sql \<noteq> []
                    then (st\<lparr>last_raw_llm := raw,
                             generated_sql := pretty_sql w sql,
                             sql_preview := pretty_sql w sql\<rparr>,
                          GetColumns (selected_table st) # evs @ [Ui SqlGenerated])
                    else (st\<lparr>last_raw_llm := raw,
                             generated_sql := pretty_sql w stub,
                             sql_preview := pretty_sql w stub\<rparr>,
                          GetColumns (selected_table st) # evs @ [Ui LlmNoSql])))
         else (st\<lparr>generated_sql := pretty_sql w stub,
                  sql_preview := pretty_sql w stub\<rparr>,
               [GetColumns (selected_table st), Ui LlmDisabled]))"

text \<open>The body of \<open>if gen_btn:\<close>. In \<open>n and selected_table\<close> the number counts as
  true when it is there and not zero, the table when it is there and not empty.\<close>

definition gen_handler :: "world \<Rightarrow> session_state \<Rightarrow> string \<Rightarrow> session_state \<times> event list" where
  "gen_handler w st0 user_q =
     (if strip user_q = [] then (st0, [Ui EnterQuestion])
      else let st = st0\<lparr>last_question := user_q, last_error := ''''\<rparr>;
               n = detect_top_n user_q
           in case (n, selected_table st) of
                (Some k, Some t) \<Rightarrow>
                  (if k \<noteq> 0 \<and> t \<noteq> [] then fast_path w st k t else llm_path w st user_q)
              | _ \<Rightarrow> llm_path w st user_q)"

text \<open>The body of \<open>if run_btn:\<close>. When \<open>run_sql\<close> fails with an exception whose text
  is empty, \<open>err\<close> counts as false and \<open>len(df)\<close> raises on \<open>None\<close>.\<close>

definition run_handler :: "world \<Rightarrow> session_state \<Rightarrow> string \<Rightarrow> session_state \<times> event list" where
  "run_handler w st sql_editor =
     (let sql = strip sql_editor
      in case safe_sql_check sql of
           (ok, reason) \<Rightarrow>
             (if \<not> ok then (st\<lparr>last_error := reason\<rparr>, [Ui (Blocked reason)])
              else (case run_sql w (db_credentials st) sql of
                      (df, err) \<Rightarrow>
                        (if err \<noteq> []
                         then (st\<lparr>last_error := err\<rparr>, [RunSql sql, Ui (ExecutionError err)])
                         else (case df of
                                 Some d \<Rightarrow>
                                   (st\<lparr>last_error := ''''\<rparr>,
                                    [RunSql sql, Ui (QueryReturned (length d)), Ui (ShowFrame d)])
                               | None \<Rightarrow> (st, [RunSql sql, Uncaught ''TypeError'']))))))"

section \<open>Reading a prompt\<close>

text \<open>The lines of the prompt up to the heading of the database block: the role sentence
  and the rules.\<close>

definition preamble_lines :: "string list" where
  "preamble_lines =
    [''You are an expert MySQL query generator. Convert natural language questions into valid MySQL SELECT statements.'',
     '''',
     ''IMPORTANT RULES:'',
     ''1. Output ONLY the SQL query'',
     ''2. No explanations, no markdown code blocks, no commentary'',
     ''3. Use LIMIT 100 unless the user specifies a different limit'',
     ''4. Always use proper table and column aliases when needed'',
     ''5. Ensure the query is syntactically correct for MySQL'',
     ''6. Use backticks for table/column names if they contain special characters'',
     '''',
     ''DATABASE INFORMATION:'']"

text \<open>\<open>s.split('\n')\<close>.\<close>

function split_lines :: "string \<Rightarrow> string list" where
  "split_lines s =
     (case dropWhile (\<lambda>c. c \<noteq> CHR 0x0A) s of
        [] \<Rightarrow> [s]
      | c # r \<Rightarrow> takeWhile (\<lambda>c. c \<noteq> CHR 0x0A) s # split_lines r)"
  by pat_completeness auto
termination
proof (relation "measure length")
  show "wf (measure length)" by simp
next
  fix s :: string and c r
  assume "dropWhile (\<lambda>c. c \<noteq> CHR 0x0A) s = c # r"
  then have "length (c # r) \<le> length s"
    by (metis length_dropWhile_le)
  then show "(r, s) \<in> measure length" by simp
qed

declare split_lines.simps [simp del]

text \<open>A numbered line: digits, a full stop, a space.\<close>

definition numbered :: "string \<Rightarrow> bool" where
  "numbered l = (takeWhile isdigit l \<noteq> [] \<and> startswith (dropWhile isdigit l) ''. '')"

text \<open>The numbered lines of a prompt above the heading of the database block.\<close>

definition preamble_rules :: "string \<Rightarrow> string list" where
  "preamble_rules p =
     filter numbered (takeWhile (\<lambda>l. l \<noteq> ''DATABASE INFORMATION:'') (split_lines p))"

text \<open>What lies between the base and the closing colon.\<close>

definition prompt_middle :: "string \<Rightarrow> string \<Rightarrow> string \<Rightarrow> string" where
  "prompt_middle question sample_data previous_error =
     (if sample_data \<noteq> [] then prompt_sample sample_data else []) @
     prompt_examples @
     (if previous_error \<noteq> [] then prompt_error previous_error else []) @
     [CHR 0x0A] @ ''USER QUESTION: '' @ question @ [CHR 0x0A, CHR 0x0A] @ ''Generate the MySQL query''"

section \<open>Sample inputs\<close>

text \<open>A world and a session to run the handlers on.\<close>

definition demo_world :: world where
  "demo_world = \<lparr>db_columns = (\<lambda>c t. []), db_sample = (\<lambda>c t. []),
     db_run = (\<lambda>c q. Inr [[''1'']]), llm_post = (\<lambda>p. HttpError ''down''),
     format_sql = (\<lambda>q. None)\<rparr>"

definition demo_state :: session_state where
  "demo_state = \<lparr>db_credentials = None, selected_table = Some ''orders'', generated_sql = [],
     last_raw_llm = [], sql_preview = [], last_error = [], last_question = []\<rparr>"

section \<open>Facts about the string functions\<close>

lemma startswith_iff: "startswith s p \<longleftrightarrow> (\<exists>r. s = p @ r)"
  by (induction s p rule: startswith.induct) auto

lemma contains_iff: "contains w s \<longleftrightarrow> (\<exists>a b. s = a @ w @ b)"
proof (induction s)
  case Nil
  then show ?case by auto
next
  case (Cons c cs)
  show ?case
  proof
    assume "contains w (c # cs)"
    then consider "startswith (c # cs) w" | "contains w cs" by auto
    then show "\<exists>a b. c # cs = a @ w @ b"
    proof cases
      case 1
      then obtain r where "c # cs = w @ r" by (auto simp: startswith_iff)
      then have "c # cs = [] @ w @ r" by simp
      then show ?thesis by blast
    next
      case 2
      then obtain a b where "cs = a @ w @ b" using Cons.IH by auto
      then have "c # cs = (c # a) @ w @ b" by simp
      then show ?thesis by blast
    qed
  next
    assume "\<exists>a b. c # cs = a @ w @ b"
    then obtain a b where ab: "c # cs = a @ w @ b" by auto
    show "contains w (c # cs)"
    proof (cases a)
      case Nil
      then have "startswith (c # cs) w" using ab by (simp add: startswith_iff)
      then show ?thesis by simp
    next
      case (Cons a' as)
      then have "cs = as @ w @ b" using ab by simp
      then show ?thesis using Cons.IH by auto
    qed
  qed
qed

lemma contains_dropWhile:
  assumes "w \<noteq> []" "\<not> P (hd w)"
  shows "contains w (dropWhile P s) \<longleftrightarrow> contains w s"
proof (induction s)
  case Nil
  then show ?case by simp
next
  case (Cons c cs)
  have "P c \<Longrightarrow> \<not> startswith (c # cs) w"
    using assms by (cases w) auto
  then show ?case using Cons by auto
qed

lemma contains_rev: "contains (rev w) (rev s) \<longleftrightarrow> contains w s"
proof -
  have "(\<exists>a b. rev s = a @ rev w @ b) \<longleftrightarrow> (\<exists>a b. s = a @ w @ b)"
  proof
    assume "\<exists>a b. rev s = a @ rev w @ b"
    then obtain a b where "rev s = a @ rev w @ b" by auto
    then have "rev (rev s) = rev (a @ rev w @ b)" by simp
    then have "s = rev b @ w @ rev a" by simp
    then show "\<exists>a b. s = a @ w @ b" by blast
  next
    assume "\<exists>a b. s = a @ w @ b"
    then obtain a b where "s = a @ w @ b" by auto
    then have "rev s = rev b @ rev w @ rev a" by simp
    then show "\<exists>a b. rev s = a @ rev w @ b" by blast
  qed
  then show ?thesis by (simp add: contains_iff)
qed

lemma contains_strip:
  assumes "w \<noteq> []" "\<not> isspace (hd w)" "\<not> isspace (last w)"
  shows "contains w (strip s) \<longleftrightarrow> contains w s"
proof -
  have r: "rev w \<noteq> []" "\<not> isspace (hd (rev w))"
    using assms by (simp_all add: hd_rev)
  have "contains w (strip s) \<longleftrightarrow> contains w (rstrip s)"
    unfolding strip_def lstrip_def using assms(1,2) by (rule contains_dropWhile)
  also have "\<dots> \<longleftrightarrow> contains (rev w) (dropWhile isspace (rev s))"
    using contains_rev [of w "rstrip s"] by (simp add: rstrip_def)
  also have "\<dots> \<longleftrightarrow> contains (rev w) (rev s)"
    using r by (rule contains_dropWhile)
  finally show ?thesis by (simp add: contains_rev)
qed

lemma forbidden_no_space:
  "w \<in> set forbidden \<Longrightarrow> w \<noteq> [] \<and> \<not> isspace (hd w) \<and> \<not> isspace (last w)"
  by (auto simp: forbidden_def isspace_def)

lemma scan_forbidden_accepts:
  "fst (scan_forbidden ws s) \<longleftrightarrow> (\<forall>w\<in>set ws. \<not> contains w s)"
  by (induction ws) auto

lemma scan_forbidden_first:
  "contains w s \<Longrightarrow> \<forall>v\<in>set vs. \<not> contains v s \<Longrightarrow>
   scan_forbidden (vs @ w # ws) s = (False, ''Forbidden keyword '' @ [CHR 0x27] @ w @ [CHR 0x27] @ ''.'')"
  by (induction vs) auto


lemma strip_Nil_iff: "strip s = [] \<longleftrightarrow> (\<forall>c\<in>set s. isspace c)"
proof (cases "dropWhile isspace (rev s) = []")
  case True
  then have "\<forall>c\<in>set s. isspace c" by (simp add: dropWhile_eq_Nil_conv)
  moreover have "strip s = []" unfolding strip_def lstrip_def rstrip_def True by simp
  ultimately show ?thesis by simp
next
  case False
  then have "\<not> isspace (hd (dropWhile isspace (rev s)))" by (rule hd_dropWhile)
  moreover have "hd (dropWhile isspace (rev s)) \<in> set (dropWhile isspace (rev s))"
    using False by simp
  ultimately have "strip s \<noteq> []"
    by (auto simp: strip_def lstrip_def rstrip_def dropWhile_eq_Nil_conv)
  moreover have "\<not> (\<forall>c\<in>set s. isspace c)"
    using False by (auto simp: dropWhile_eq_Nil_conv)
  ultimately show ?thesis by simp
qed

lemma isspace_lower_char: "isspace (lower_char c) = isspace c"
  by (auto simp: isspace_def lower_char_def Let_def)

lemma strip_lower_Nil: "strip (lower s) = [] \<longleftrightarrow> strip s = []"
  by (simp add: strip_Nil_iff lower_def isspace_lower_char)

lemma safe_sql_check_accepts_iff:
  "fst (safe_sql_check sql) \<longleftrightarrow>
     strip sql \<noteq> [] \<and> startswith (strip (lower sql)) ''select'' \<and>
     (\<forall>w\<in>set forbidden. \<not> contains w (strip (lower sql)))"
  by (simp add: safe_sql_check_def Let_def scan_forbidden_accepts)

lemma contains_strip_forbidden:
  "w \<in> set forbidden \<Longrightarrow> contains w (strip s) \<longleftrightarrow> contains w s"
  using forbidden_no_space [of w] by (simp add: contains_strip)

section \<open>Properties of the Safety Gate\<close>

text \<open>
  C1: a string that \<open>safe_sql_check\<close> accepts is, lower-cased and trimmed, not empty,
  starts with \<open>select\<close> and contains none of the forbidden words; and the run handler
  passes to \<open>run_sql\<close> only the trimmed text of the editor, only when the gate accepts
  it, so no string with a forbidden word in it reaches the Query Executor that way.
\<close>

theorem safe_sql_check_accepts:
  "(fst (safe_sql_check s) \<longrightarrow>
      strip (lower s) \<noteq> [] \<and> startswith (strip (lower s)) ''select'' \<and>
      (\<forall>w\<in>set forbidden. \<not> contains w (strip (lower s)))) \<and>
   (RunSql x \<in> set (snd (run_handler env st sql_editor)) \<longrightarrow>
      x = strip sql_editor \<and> fst (safe_sql_check x) \<and>
      (\<forall>w\<in>set forbidden. \<not> contains w (lower x)))"
proof (intro conjI impI)
  assume a: "fst (safe_sql_check s)"
  then show "startswith (strip (lower s)) ''select''"
    and "\<forall>w\<in>set forbidden. \<not> contains w (strip (lower s))"
    by (simp_all add: safe_sql_check_accepts_iff)
  then show "strip (lower s) \<noteq> []" by auto
next
  assume r: "RunSql x \<in> set (snd (run_handler env st sql_editor))"
  obtain ok reason where g: "safe_sql_check (strip sql_editor) = (ok, reason)"
    by (cases "safe_sql_check (strip sql_editor)")
  have ok: "ok" and x: "x = strip sql_editor"
    using r g by (auto simp: run_handler_def Let_def split: prod.splits if_splits option.splits)
  show "x = strip sql_editor" by (rule x)
  show acc: "fst (safe_sql_check x)" using ok g x by simp
  show "\<forall>w\<in>set forbidden. \<not> contains w (lower x)"
    using acc by (simp add: safe_sql_check_accepts_iff contains_strip_forbidden)
qed

theorem safe_sql_check_accepts_witness:
  "fst (safe_sql_check ''SELECT 1'') \<and>
   RunSql ''select 1'' \<in> set (snd (run_handler demo_world demo_state '' select 1 '')) \<and>
   startswith (strip (lower ''SELECT 1'')) ''select'' \<and>
   \<not> contains ''drop'' (strip (lower ''SELECT 1'')) \<and>
   fst (safe_sql_check ''select 1'') \<and>
   \<not> contains ''drop'' (lower ''select 1'')"
proof -
  have h1: "fst (safe_sql_check ''SELECT 1'')" by code_simp
  have h2: "RunSql ''select 1'' \<in> set (snd (run_handler demo_world demo_state '' select 1 ''))"
    by code_simp
  have h3: "''drop'' \<in> set forbidden" by (simp add: forbidden_def)
  show ?thesis
    using h1 h2 h3
      safe_sql_check_accepts [of "''SELECT 1''" "''select 1''" demo_world demo_state "'' select 1 ''"]
    by blast
qed

text \<open>
  The claim C2 as the specification states it fails: a string with a forbidden word in it
  that does not start with \<open>select\<close> is rejected by the earlier check, whose reason
  does not name the word.
\<close>

theorem safe_sql_check_names_keyword_counterexample:
  "''drop'' \<in> set forbidden \<and> contains ''drop'' (lower ''DROP TABLE t'') \<and>
   \<not> fst (safe_sql_check ''DROP TABLE t'') \<and>
   \<not> contains ''drop'' (snd (safe_sql_check ''DROP TABLE t''))"
  by code_simp

text \<open>
  C2, amended: a string that contains a forbidden word \<open>W\<close>, in any case, is rejected;
  and when its lower-cased, trimmed form starts with \<open>select\<close> and no word before
  \<open>W\<close> in the list occurs in it, the reason is \<open>Forbidden keyword 'W'.\<close>
\<close>

theorem safe_sql_check_forbidden:
  assumes "W \<in> set forbidden" and "contains W (lower sql)"
  shows "\<not> fst (safe_sql_check sql) \<and>
    (startswith (strip (lower sql)) ''select'' \<and>
     (\<forall>v\<in>set (takeWhile (\<lambda>v. v \<noteq> W) forbidden). \<not> contains v (lower sql)) \<longrightarrow>
       safe_sql_check sql = (False, ''Forbidden keyword '' @ [CHR 0x27] @ W @ [CHR 0x27] @ ''.''))"
proof (intro conjI impI)
  have c: "contains W (strip (lower sql))"
    using assms by (simp add: contains_strip_forbidden)
  then show "\<not> fst (safe_sql_check sql)"
    using assms(1) by (auto simp: safe_sql_check_accepts_iff)
  assume a: "startswith (strip (lower sql)) ''select'' \<and>
     (\<forall>v\<in>set (takeWhile (\<lambda>v. v \<noteq> W) forbidden). \<not> contains v (lower sql))"
  let ?vs = "takeWhile (\<lambda>v. v \<noteq> W) forbidden"
  have split: "forbidden = ?vs @ W # tl (dropWhile (\<lambda>v. v \<noteq> W) forbidden)"
    using assms(1)
    by (metis (mono_tags, lifting) dropWhile_eq_Nil_conv hd_dropWhile list.exhaust_sel takeWhile_dropWhile_id)
  have sub: "set ?vs \<subseteq> set forbidden" by (auto dest: set_takeWhileD)
  have none: "\<forall>v\<in>set ?vs. \<not> contains v (strip (lower sql))"
    using a sub by (auto simp: contains_strip_forbidden)
  have ne: "strip sql \<noteq> []"
  proof
    assume "strip sql = []"
    then have "strip (lower sql) = []" by (simp add: strip_lower_Nil)
    then show False using c forbidden_no_space [OF assms(1)] by simp
  qed
  have "scan_forbidden forbidden (strip (lower sql)) =
      (False, ''Forbidden keyword '' @ [CHR 0x27] @ W @ [CHR 0x27] @ ''.'')"
    using scan_forbidden_first [OF c none] split by metis
  then show "safe_sql_check sql = (False, ''Forbidden keyword '' @ [CHR 0x27] @ W @ [CHR 0x27] @ ''.'')"
    using a ne by (simp add: safe_sql_check_def Let_def)
qed


theorem safe_sql_check_forbidden_witness:
  "''delete'' \<in> set forbidden \<and> contains ''delete'' (lower ''SELECT 1; DELETE FROM t'') \<and>
   safe_sql_check ''SELECT 1; DELETE FROM t'' =
     (False, ''Forbidden keyword '' @ [CHR 0x27] @ ''delete'' @ [CHR 0x27] @ ''.'')"
proof -
  have h1: "''delete'' \<in> set forbidden" by (simp add: forbidden_def)
  have h2: "contains ''delete'' (lower ''SELECT 1; DELETE FROM t'')" by code_simp
  have h3: "startswith (strip (lower ''SELECT 1; DELETE FROM t'')) ''select'' \<and>
     (\<forall>v\<in>set (takeWhile (\<lambda>v. v \<noteq> ''delete'') forbidden).
        \<not> contains v (lower ''SELECT 1; DELETE FROM t''))"
    by code_simp
  show ?thesis using h1 h2 h3 safe_sql_check_forbidden [OF h1 h2] by blast
qed

text \<open>
  The claim C3 as the specification states it fails on a blank string: it does not start
  with \<open>select\<close>, and the reason is \<open>SQL empty.\<close>
\<close>

theorem safe_sql_check_not_select_counterexample:
  "\<not> startswith (strip (lower ''  '')) ''select'' \<and>
   safe_sql_check ''  '' \<noteq> (False, ''Only SELECT allowed.'')"
  by code_simp

text \<open>
  C3, amended: a string that is not blank and whose trimmed, lower-cased form does not
  start with \<open>select\<close> is rejected with the reason \<open>Only SELECT allowed.\<close>
\<close>

theorem safe_sql_check_not_select:
  "strip sql \<noteq> [] \<Longrightarrow> \<not> startswith (strip (lower sql)) ''select'' \<Longrightarrow>
   safe_sql_check sql = (False, ''Only SELECT allowed.'')"
  by (simp add: safe_sql_check_def)

theorem safe_sql_check_not_select_witness:
  "strip ''UPDATE t SET a = 1'' \<noteq> [] \<and>
   \<not> startswith (strip (lower ''UPDATE t SET a = 1'')) ''select'' \<and>
   safe_sql_check ''UPDATE t SET a = 1'' = (False, ''Only SELECT allowed.'')"
proof -
  have h1: "strip ''UPDATE t SET a = 1'' \<noteq> []" by code_simp
  have h2: "\<not> startswith (strip (lower ''UPDATE t SET a = 1'')) ''select''" by code_simp
  show ?thesis using h1 h2 safe_sql_check_not_select [OF h1 h2] by simp
qed

text \<open>
  C9: an empty or whitespace-only SQL string is rejected with the reason
  \<open>SQL empty.\<close>, whatever the later checks would say: the emptiness check comes first.
\<close>

theorem safe_sql_check_blank:
  "strip sql = [] \<Longrightarrow> safe_sql_check sql = (False, ''SQL empty.'')"
  by (simp add: safe_sql_check_def)

theorem safe_sql_check_blank_witness:
  "strip [CHR '' '', CHR 0x09, CHR 0x0A] = [] \<and>
   safe_sql_check [CHR '' '', CHR 0x09, CHR 0x0A] = (False, ''SQL empty.'')"
proof -
  have h: "strip [CHR '' '', CHR 0x09, CHR 0x0A] = []"
    by (simp add: strip_def lstrip_def rstrip_def isspace_def)
  show ?thesis using h safe_sql_check_blank [OF h] by simp
qed

section \<open>Properties of the generate handler\<close>

lemma detect_top_n_not_blank: "detect_top_n q = Some k \<Longrightarrow> strip q \<noteq> []"
proof
  assume d: "detect_top_n q = Some k" and "strip q = []"
  then have "strip (lower q) = []" by (simp add: strip_lower_Nil)
  then show False using d by (simp add: detect_top_n_def)
qed

lemma llm_path_posts: "\<exists>p. LlmPost p \<in> set (snd (llm_path w st q))"
  by (auto simp: llm_path_def call_llm_def USE_LLM_def Let_def split: http_result.splits)

lemma llm_path_not_direct: "Ui (DirectSqlGenerated n) \<notin> set (snd (llm_path w st q))"
  by (auto simp: llm_path_def call_llm_def USE_LLM_def Let_def split: http_result.splits)

text \<open>
  C6: for the question \<open>show me the top 7 rows\<close> with the table \<open>orders\<close> selected,
  the generate handler takes the fast path: the query it builds is
  \<open>SELECT * FROM `orders` LIMIT 7;\<close> (stored through \<open>pretty_sql\<close>), the only thing it
  does is to show the success message, and nothing is posted to the generation endpoint.
\<close>

theorem gen_handler_top_7:
  "selected_table st = Some ''orders'' \<Longrightarrow>
   gen_handler w st ''show me the top 7 rows'' =
     (st\<lparr>last_question := ''show me the top 7 rows'', last_error := '''',
         generated_sql := pretty_sql w ''SELECT * FROM `orders` LIMIT 7;'',
         sql_preview := pretty_sql w ''SELECT * FROM `orders` LIMIT 7;'',
         last_raw_llm := bypass_note\<rparr>,
      [Ui (DirectSqlGenerated 7)]) \<and>
   (\<forall>p. LlmPost p \<notin> set (snd (gen_handler w st ''show me the top 7 rows'')))"
proof -
  assume t: "selected_table st = Some ''orders''"
  have d: "detect_top_n ''show me the top 7 rows'' = Some 7" by code_simp
  have s: "strip ''show me the top 7 rows'' \<noteq> []" by code_simp
  have n: "show_nat 7 = ''7''" by code_simp
  have "gen_handler w st ''show me the top 7 rows'' =
     (st\<lparr>last_question := ''show me the top 7 rows'', last_error := '''',
         generated_sql := pretty_sql w ''SELECT * FROM `orders` LIMIT 7;'',
         sql_preview := pretty_sql w ''SELECT * FROM `orders` LIMIT 7;'',
         last_raw_llm := bypass_note\<rparr>,
      [Ui (DirectSqlGenerated 7)])"
    using t d s n by (simp add: gen_handler_def fast_path_def Let_def)
  then show ?thesis by simp
qed

theorem gen_handler_top_7_witness:
  "selected_table demo_state = Some ''orders'' \<and>
   generated_sql (fst (gen_handler demo_world demo_state ''show me the top 7 rows'')) =
     ''SELECT * FROM `orders` LIMIT 7;'' \<and>
   snd (gen_handler demo_world demo_state ''show me the top 7 rows'') = [Ui (DirectSqlGenerated 7)]"
proof -
  have h: "selected_table demo_state = Some ''orders''" by (simp add: demo_state_def)
  have p: "pretty_sql demo_world ''SELECT * FROM `orders` LIMIT 7;'' = ''SELECT * FROM `orders` LIMIT 7;''"
    by (simp add: pretty_sql_def demo_world_def)
  show ?thesis using h p gen_handler_top_7 [OF h, of demo_world] by simp
qed

text \<open>
  C10: \<open>detect_top_n\<close> gives 0 on \<open>top 0\<close> and on \<open>first 0\<close>; and for every question
  on which it gives 0 the handler counts the number as false, does not take the fast path
  and goes through the branch that calls the Generation Client.
\<close>

theorem gen_handler_top_0:
  "detect_top_n ''top 0'' = Some 0 \<and> detect_top_n ''first 0'' = Some 0 \<and>
   (detect_top_n q = Some 0 \<longrightarrow>
      gen_handler w st q = llm_path w (st\<lparr>last_question := q, last_error := ''''\<rparr>) q \<and>
      (\<exists>p. LlmPost p \<in> set (snd (gen_handler w st q))) \<and>
      Ui (DirectSqlGenerated 0) \<notin> set (snd (gen_handler w st q)))"
proof (intro conjI impI)
  show "detect_top_n ''top 0'' = Some 0" by code_simp
  show "detect_top_n ''first 0'' = Some 0" by code_simp
next
  assume d: "detect_top_n q = Some 0"
  then have s: "strip q \<noteq> []" by (rule detect_top_n_not_blank)
  show g: "gen_handler w st q = llm_path w (st\<lparr>last_question := q, last_error := ''''\<rparr>) q"
    using d s by (simp add: gen_handler_def Let_def split: option.splits)
  show "\<exists>p. LlmPost p \<in> set (snd (gen_handler w st q))"
    unfolding g by (rule llm_path_posts)
  show "Ui (DirectSqlGenerated 0) \<notin> set (snd (gen_handler w st q))"
    unfolding g by (rule llm_path_not_direct)
qed

theorem gen_handler_top_0_witness:
  "detect_top_n ''Show the first 0 rows'' = Some 0 \<and>
   snd (gen_handler demo_world demo_state ''Show the first 0 rows'') =
     [GetColumns (Some ''orders''), GetSample (Some ''orders''),
      LlmPost (build_prompt ''orders'' [] ''Show the first 0 rows'' [] []), Ui LlmNoSql] \<and>
   Ui (DirectSqlGenerated 0) \<notin> set (snd (gen_handler demo_world demo_state ''Show the first 0 rows''))"
proof -
  have h: "detect_top_n ''Show the first 0 rows'' = Some 0" by code_simp
  have l: "snd (llm_path demo_world (demo_state\<lparr>last_question := ''Show the first 0 rows'', last_error := ''''\<rparr>)
       ''Show the first 0 rows'') =
     [GetColumns (Some ''orders''), GetSample (Some ''orders''),
      LlmPost (build_prompt ''orders'' [] ''Show the first 0 rows'' [] []), Ui LlmNoSql]"
    by (simp add: llm_path_def call_llm_def USE_LLM_def demo_world_def demo_state_def Let_def str_opt_def)
  show ?thesis using h l gen_handler_top_0 [of "''Show the first 0 rows''" demo_world demo_state] by simp
qed

section \<open>Properties of the Prompt Builder\<close>

lemma show_nat_DEFAULT_LIMIT: "show_nat DEFAULT_LIMIT = ''100''"
  by code_simp

lemma unlines_append: "unlines (xs @ ys) = unlines xs @ unlines ys"
  by (simp add: unlines_def)

lemma prompt_base_preamble:
  "prompt_base t cols =
     unlines preamble_lines @ unlines [''Table: '' @ t, ''Columns: '' @ cols_detail cols]"
  by (simp add: prompt_base_def preamble_lines_def unlines_def show_nat_DEFAULT_LIMIT)

lemma strip_between:
  assumes "xs \<noteq> []" "\<not> isspace (hd xs)" "\<not> isspace d" "\<forall>x\<in>set ws. isspace x"
  shows "strip (xs @ ys @ d # ws) = xs @ ys @ [d]"
proof -
  have "dropWhile isspace (rev ws @ d # rev ys @ rev xs) = d # rev ys @ rev xs"
    using assms(3,4) by (simp add: dropWhile_append)
  then have "rstrip (xs @ ys @ d # ws) = xs @ ys @ [d]"
    by (simp add: rstrip_def)
  moreover have "dropWhile isspace (xs @ ys @ [d]) = xs @ ys @ [d]"
    using assms(1,2) by (cases xs) simp_all
  ultimately show ?thesis by (simp add: strip_def lstrip_def)
qed

lemma build_prompt_eq:
  "build_prompt t cols q sd pe = prompt_base t cols @ prompt_middle q sd pe @ '':''"
proof -
  have q: "prompt_question q =
      ([CHR 0x0A] @ ''USER QUESTION: '' @ q @ [CHR 0x0A, CHR 0x0A] @ ''Generate the MySQL query'') @
      CHR '':'' # [CHR 0x0A]"
    by (simp add: prompt_question_def unlines_def)
  have b: "prompt_base t cols \<noteq> []" "\<not> isspace (hd (prompt_base t cols))"
    by (simp_all add: prompt_base_def unlines_def isspace_def)
  have "build_prompt t cols q sd pe =
      strip (prompt_base t cols @ prompt_middle q sd pe @ CHR '':'' # [CHR 0x0A])"
    unfolding build_prompt_def Let_def q prompt_middle_def by simp
  also have "\<dots> = prompt_base t cols @ prompt_middle q sd pe @ [CHR '':'']"
    using b by (rule strip_between) (simp_all add: isspace_def)
  finally show ?thesis by simp
qed

lemma split_lines_line:
  "CHR 0x0A \<notin> set l \<Longrightarrow> split_lines (l @ CHR 0x0A # r) = l # split_lines r"
  by (subst split_lines.simps) (simp add: dropWhile_append3 takeWhile_append1 dropWhile_append takeWhile_append)

lemma split_lines_unlines:
  "\<forall>l\<in>set ls. CHR 0x0A \<notin> set l \<Longrightarrow> split_lines (unlines ls @ r) = ls @ split_lines r"
proof (induction ls)
  case Nil
  then show ?case by (simp add: unlines_def)
next
  case (Cons l ls)
  have "unlines (l # ls) @ r = l @ CHR 0x0A # (unlines ls @ r)" by (simp add: unlines_def)
  then show ?case using Cons by (simp add: split_lines_line)
qed

lemma preamble_lines_no_newline: "\<forall>l\<in>set preamble_lines. CHR 0x0A \<notin> set l"
  by (simp add: preamble_lines_def)

text \<open>
  The claim C7 as the specification states it fails: the preamble of a prompt has six
  numbered rules, not five.
\<close>

theorem build_prompt_five_rules_counterexample:
  "length (preamble_rules (build_prompt ''orders'' [(''id'', ''int'')] ''How many orders?'' [] [])) \<noteq> 5"
  by code_simp

text \<open>
  C7, amended: whatever the table, the columns, the question, the sample text and the
  prior error are, the prompt begins with the role sentence and the rules, and the
  numbered rules above the database block are exactly six: output SQL only; no
  explanations or markdown; the default row limit; aliases; syntactic correctness;
  backticks for names with special characters.
\<close>

theorem build_prompt_rules:
  "startswith (build_prompt table columns question sample_data previous_error)
     (unlines preamble_lines) \<and>
   preamble_rules (build_prompt table columns question sample_data previous_error) =
     [''1. Output ONLY the SQL query'',
      ''2. No explanations, no markdown code blocks, no commentary'',
      ''3. Use LIMIT 100 unless the user specifies a different limit'',
      ''4. Always use proper table and column aliases when needed'',
      ''5. Ensure the query is syntactically correct for MySQL'',
      ''6. Use backticks for table/column names if they contain special characters'']"
proof -
  define rest where "rest = unlines [''Table: '' @ table, ''Columns: '' @ cols_detail columns] @
    prompt_middle question sample_data previous_error @ '':''"
  have e: "build_prompt table columns question sample_data previous_error =
      unlines preamble_lines @ rest"
    by (simp add: build_prompt_eq prompt_base_preamble rest_def)
  have s: "split_lines (unlines preamble_lines @ rest) = preamble_lines @ split_lines rest"
    using preamble_lines_no_newline by (rule split_lines_unlines)
  have "preamble_rules (unlines preamble_lines @ rest) =
      filter numbered (takeWhile (\<lambda>l. l \<noteq> ''DATABASE INFORMATION:'') (preamble_lines @ split_lines rest))"
    by (simp only: preamble_rules_def s)
  also have "\<dots> = filter numbered (butlast preamble_lines)"
    by (simp add: preamble_lines_def)
  also have "\<dots> = [''1. Output ONLY the SQL query'',
      ''2. No explanations, no markdown code blocks, no commentary'',
      ''3. Use LIMIT 100 unless the user specifies a different limit'',
      ''4. Always use proper table and column aliases when needed'',
      ''5. Ensure the query is syntactically correct for MySQL'',
      ''6. Use backticks for table/column names if they contain special characters'']"
    by (simp add: preamble_lines_def numbered_def isdigit_def)
  finally show ?thesis unfolding e by (simp add: startswith_iff)
qed

text \<open>
  C8: the prompt contains the table name and the question as they are given, and, when
  the prior error is not empty, the line \<open>PREVIOUS ATTEMPT FAILED WITH ERROR:\<close> with the
  error text right below it.
\<close>

theorem build_prompt_contains:
  "contains table (build_prompt table columns question sample_data previous_error) \<and>
   contains question (build_prompt table columns question sample_data previous_error) \<and>
   (previous_error \<noteq> [] \<longrightarrow>
      contains (''PREVIOUS ATTEMPT FAILED WITH ERROR:'' @ [CHR 0x0A] @ previous_error)
        (build_prompt table columns question sample_data previous_error))"
proof (intro conjI impI)
  let ?P = "build_prompt table columns question sample_data previous_error"
  let ?nl = "CHR 0x0A"
  have "?P = (unlines (butlast preamble_lines) @ ''DATABASE INFORMATION:'' @ [?nl] @ ''Table: '') @ table @
      ([?nl] @ ''Columns: '' @ cols_detail columns @ [?nl] @
       prompt_middle question sample_data previous_error @ '':'')"
    by (simp add: build_prompt_eq prompt_base_preamble unlines_def preamble_lines_def)
  then show "contains table ?P" unfolding contains_iff by blast
  have "?P = (prompt_base table columns @
        (if sample_data \<noteq> [] then prompt_sample sample_data else []) @ prompt_examples @
        (if previous_error \<noteq> [] then prompt_error previous_error else []) @
        [?nl] @ ''USER QUESTION: '') @ question @
      ([?nl, ?nl] @ ''Generate the MySQL query:'')"
    by (simp add: build_prompt_eq prompt_middle_def)
  then show "contains question ?P" unfolding contains_iff by blast
  assume "previous_error \<noteq> []"
  then have "?P = (prompt_base table columns @
        (if sample_data \<noteq> [] then prompt_sample sample_data else []) @ prompt_examples @ [?nl]) @
      (''PREVIOUS ATTEMPT FAILED WITH ERROR:'' @ [?nl] @ previous_error) @
      ([?nl, ?nl] @ ''Please fix the query to avoid this error.'' @ [?nl] @
       [?nl] @ ''USER QUESTION: '' @ question @ [?nl, ?nl] @ ''Generate the MySQL query:'')"
    by (simp add: build_prompt_eq prompt_middle_def prompt_error_def unlines_def)
  then show "contains (''PREVIOUS ATTEMPT FAILED WITH ERROR:'' @ [?nl] @ previous_error) ?P"
    unfolding contains_iff by blast
qed

theorem build_prompt_contains_witness:
  "''Unknown column'' \<noteq> [] \<and>
   contains ''orders'' (build_prompt ''orders'' [] ''How many?'' [] ''Unknown column'') \<and>
   contains ''How many?'' (build_prompt ''orders'' [] ''How many?'' [] ''Unknown column'') \<and>
   contains (''PREVIOUS ATTEMPT FAILED WITH ERROR:'' @ [CHR 0x0A] @ ''Unknown column'')
     (build_prompt ''orders'' [] ''How many?'' [] ''Unknown column'')"
proof -
  have h: "''Unknown column'' \<noteq> []" by simp
  show ?thesis
    using h build_prompt_contains [of "''orders''" "[]" "''How many?''" "[]" "''Unknown column''"]
    by blast
qed

section \<open>Properties of the SQL Extractor\<close>

lemma endswith_iff: "endswith s p \<longleftrightarrow> (\<exists>r. s = r @ p)"
proof -
  have "(\<exists>r. rev s = rev p @ r) \<longleftrightarrow> (\<exists>r. s = r @ p)"
  proof
    assume "\<exists>r. rev s = rev p @ r"
    then obtain r where "rev s = rev p @ r" by auto
    then have "rev (rev s) = rev (rev p @ r)" by simp
    then have "s = rev r @ p" by simp
    then show "\<exists>r. s = r @ p" by blast
  next
    assume "\<exists>r. s = r @ p"
    then obtain r where "s = r @ p" by auto
    then have "rev s = rev p @ rev r" by simp
    then show "\<exists>r. rev s = rev p @ r" by blast
  qed
  then show ?thesis by (simp add: endswith_def startswith_iff)
qed

lemma rstrip_append:
  assumes "p \<noteq> []" "\<not> isspace (last p)"
  shows "\<exists>t'. rstrip (p @ t) = p @ t'"
proof -
  have "dropWhile isspace (rev p) = rev p"
    using assms by (cases "rev p") (auto simp: last_rev)
  then have "dropWhile isspace (rev t @ rev p) =
      (if \<forall>x\<in>set (rev t). isspace x then rev p else dropWhile isspace (rev t) @ rev p)"
    by (simp add: dropWhile_append)
  then show ?thesis by (auto simp: rstrip_def)
qed

lemma strip_keeps_prefix:
  assumes "p \<noteq> []" "\<not> isspace (hd p)" "\<not> isspace (last p)"
  shows "\<exists>t'. strip (p @ t) = p @ t'"
proof -
  obtain t' where "rstrip (p @ t) = p @ t'" using rstrip_append [OF assms(1,3)] by blast
  moreover have "dropWhile isspace (p @ t') = p @ t'" using assms(1,2) by (cases p) simp_all
  ultimately show ?thesis by (simp add: strip_def lstrip_def)
qed

lemma strip_id:
  assumes "s \<noteq> []" "\<not> isspace (hd s)" "\<not> isspace (last s)"
  shows "strip s = s"
proof -
  have "dropWhile isspace (rev s) = rev s"
    using assms by (cases "rev s") (auto simp: last_rev)
  then have "rstrip s = s" by (simp add: rstrip_def)
  moreover have "dropWhile isspace s = s" using assms(1,2) by (cases s) simp_all
  ultimately show ?thesis by (simp add: strip_def lstrip_def)
qed

lemma strip_last: "strip s \<noteq> [] \<Longrightarrow> \<not> isspace (last (strip s))"
proof -
  assume ne: "strip s \<noteq> []"
  let ?r = "rstrip s"
  have r: "?r \<noteq> []" using ne by (auto simp: strip_def lstrip_def)
  then have "dropWhile isspace (rev s) \<noteq> []" by (simp add: rstrip_def)
  then have "\<not> isspace (hd (dropWhile isspace (rev s)))" by (rule hd_dropWhile)
  then have l: "\<not> isspace (last ?r)"
    using r by (simp add: rstrip_def last_rev)
  have "?r = takeWhile isspace ?r @ strip s"
    by (simp add: strip_def lstrip_def)
  then obtain a where "?r = a @ strip s" by blast
  then have "last ?r = last (strip s)" using ne by simp
  then show ?thesis using l by simp
qed

lemma select_word:
  assumes "lower p = ''select''"
  shows "p \<noteq> []" "\<not> isspace (hd p)" "\<not> isspace (last p)" "length p = 6"
proof -
  have "length (lower p) = length ''select''" using assms by simp
  then have len: "length p = 6" by (simp add: lower_def)
  show "length p = 6" by (rule len)
  show ne: "p \<noteq> []" using len by auto
  have h: "lower_char (hd p) = CHR ''s''" using assms ne by (cases p) (auto simp: lower_def)
  have "isspace (hd p) = isspace (lower_char (hd p))" by (simp add: isspace_lower_char)
  then show "\<not> isspace (hd p)" unfolding h by (simp add: isspace_def)
  have "last (lower p) = lower_char (last p)" using ne by (simp add: lower_def last_map)
  then have l: "lower_char (last p) = CHR ''t''" using assms by simp
  have "isspace (last p) = isspace (lower_char (last p))" by (simp add: isspace_lower_char)
  then show "\<not> isspace (last p)" unfolding l by (simp add: isspace_def)
qed


lemma lower_append: "lower (a @ b) = lower a @ lower b"
  by (simp add: lower_def)

lemma lower_Cons: "lower (c # cs) = lower_char c # lower cs"
  by (simp add: lower_def)

lemma select_here_lower: "select_here s \<Longrightarrow> startswith (lower s) ''select''"
proof -
  assume "select_here s"
  then have "lower (take 6 s) = ''select''" by (simp add: select_here_def)
  moreover have "lower s = lower (take 6 s) @ lower (drop 6 s)"
    by (simp add: lower_append [symmetric])
  ultimately show ?thesis by (simp add: startswith_iff)
qed

lemma semicolon_not_space: "\<not> isspace (CHR '';'')"
  by (simp add: isspace_def)

lemma strip_select_semi:
  assumes "select_here m" "endswith m '';''"
  shows "strip m = m"
proof -
  have p: "lower (take 6 m) = ''select''" using assms(1) by (simp add: select_here_def)
  have ne: "m \<noteq> []" using select_word(1) [OF p] by auto
  have "hd m = hd (take 6 m)" using ne by (cases m) simp_all
  then have h: "\<not> isspace (hd m)" using select_word(2) [OF p] by simp
  obtain r where "m = r @ '';''" using assms(2) by (auto simp: endswith_iff)
  then have "last m = CHR '';''" by simp
  then have "\<not> isspace (last m)" by (simp add: semicolon_not_space)
  with ne h show ?thesis by (rule strip_id)
qed

lemma match_select_semi_Some:
  assumes "match_select_semi s = Some m"
  shows "select_here s" "select_here m" "endswith m '';''"
    "m = take 6 s @ takeWhile (\<lambda>c. c \<noteq> CHR '';'') (drop 6 s) @ '';''"
proof -
  show s: "select_here s" using assms by (auto simp: match_select_semi_def split: if_splits)
  show m: "m = take 6 s @ takeWhile (\<lambda>c. c \<noteq> CHR '';'') (drop 6 s) @ '';''"
    using assms by (auto simp: match_select_semi_def Let_def split: if_splits)
  have "length (take 6 s) = 6"
    using s select_word(4) [of "take 6 s"] by (simp add: select_here_def)
  then have "take 6 m = take 6 s" unfolding m by simp
  then show "select_here m" using s by (simp add: select_here_def)
  have "m = (take 6 s @ takeWhile (\<lambda>c. c \<noteq> CHR '';'') (drop 6 s)) @ '';''"
    unfolding m by simp
  then show "endswith m '';''" unfolding endswith_iff by blast
qed

lemma search_select_semi_Some:
  "search_select_semi r = Some m \<Longrightarrow> select_here m \<and> endswith m '';''"
  by (induction r) (auto split: option.splits dest: match_select_semi_Some)

lemma search_select_rest_Some: "search_select_rest r = Some m \<Longrightarrow> select_here m"
  by (induction r) (auto split: if_splits)

lemma search_select_rest_contains:
  "search_select_rest r = Some m \<Longrightarrow> contains ''select'' (lower r)"
proof (induction r)
  case Nil
  then show ?case by simp
next
  case (Cons c cs)
  show ?case
  proof (cases "select_here (c # cs)")
    case True
    then have "startswith (lower (c # cs)) ''select''" by (rule select_here_lower)
    then show ?thesis by (simp add: lower_Cons)
  next
    case False
    then have "contains ''select'' (lower cs)" using Cons by simp
    then show ?thesis by (simp add: lower_Cons)
  qed
qed

lemma search_select_semi_contains:
  "search_select_semi r = Some m \<Longrightarrow> contains ''select'' (lower r)"
proof (induction r)
  case Nil
  then show ?case by simp
next
  case (Cons c cs)
  show ?case
  proof (cases "match_select_semi (c # cs)")
    case (Some a)
    then have "select_here (c # cs)" by (rule match_select_semi_Some(1))
    then have "startswith (lower (c # cs)) ''select''" by (rule select_here_lower)
    then show ?thesis by (simp add: lower_Cons)
  next
    case None
    then have "contains ''select'' (lower cs)" using Cons by simp
    then show ?thesis by (simp add: lower_Cons)
  qed
qed

text \<open>What the last lines of \<open>extract_sql\<close> make of a candidate that starts with the
  keyword.\<close>

lemma finish_select:
  assumes "select_here m"
  defines "c \<equiv> strip m"
  defines "c' \<equiv> (if c \<noteq> [] \<and> \<not> endswith c '';'' then c @ '';'' else c)"
  shows "c' \<noteq> []" "strip c' = c'" "select_here c'" "endswith c' '';''"
proof -
  have p: "lower (take 6 m) = ''select''" using assms(1) by (simp add: select_here_def)
  note w = select_word [OF p]
  have "m = take 6 m @ drop 6 m" by simp
  then obtain t where "strip m = take 6 m @ t"
    using strip_keeps_prefix [OF w(1,2,3), of "drop 6 m"] by auto
  then have ct: "c = take 6 m @ t" by (simp add: c_def)
  have c6: "take 6 c = take 6 m" unfolding ct using w(4) by simp
  have sc: "select_here c" using p c6 by (simp add: select_here_def)
  have cne: "c \<noteq> []" using ct w(1) by simp
  show e: "endswith c' '';''"
    unfolding c'_def using cne by (auto simp: endswith_iff)
  have "take 6 c' = take 6 c"
    unfolding c'_def ct using w(4) by simp
  then show s': "select_here c'" using sc by (simp add: select_here_def)
  show "c' \<noteq> []" unfolding c'_def using cne by simp
  show "strip c' = c'" using s' e by (rule strip_select_semi)
qed

lemma extract_sql_semi:
  assumes "search_select_semi (sub_fence (sub_sql_fence raw)) = Some m"
  shows "extract_sql raw = m"
proof -
  have m: "select_here m" "endswith m '';''"
    using search_select_semi_Some [OF assms] by simp_all
  have s: "strip m = m" using m by (rule strip_select_semi)
  have "m \<noteq> []" using m(2) by (auto simp: endswith_iff)
  then show ?thesis using assms s m(2) by (simp add: extract_sql_def Let_def)
qed

lemma extract_sql_rest:
  assumes "search_select_semi (sub_fence (sub_sql_fence raw)) = None"
    and "search_select_rest (sub_fence (sub_sql_fence raw)) = Some m"
  shows "extract_sql raw = (if endswith (strip m) '';'' then strip m else strip m @ '';'')"
    and "select_here (extract_sql raw)" and "endswith (extract_sql raw) '';''"
proof -
  have m: "select_here m" using assms(2) by (rule search_select_rest_Some)
  note f = finish_select [OF m]
  have ne: "strip m \<noteq> []" using f(1) by (auto split: if_splits)
  let ?c = "(if strip m \<noteq> [] \<and> \<not> endswith (strip m) '';''
      then strip m @ '';'' else strip m)"
  have "extract_sql raw = (if ?c \<noteq> [] then strip ?c else [])"
    unfolding extract_sql_def Let_def assms by (simp only: option.case)
  also have "\<dots> = strip ?c" by (rule if_P) (rule f(1))
  also have "\<dots> = ?c" by (rule f(2))
  finally have e: "extract_sql raw = ?c" .
  then show "extract_sql raw = (if endswith (strip m) '';'' then strip m else strip m @ '';'')"
    using ne by simp
  show "select_here (extract_sql raw)" unfolding e by (rule f(3))
  show "endswith (extract_sql raw) '';''" unfolding e by (rule f(4))
qed

lemma extract_sql_none:
  assumes "search_select_semi (sub_fence (sub_sql_fence raw)) = None"
    and "search_select_rest (sub_fence (sub_sql_fence raw)) = None"
  shows "extract_sql raw = []"
  using assms by (simp add: extract_sql_def)

lemma sub_fence_no_fence: "\<not> contains ''```'' s \<Longrightarrow> sub_fence s = s"
  by (induction s) auto

lemma startswith_sql_fence: "startswith s ''```sql'' \<Longrightarrow> startswith s ''```''"
proof -
  assume "startswith s ''```sql''"
  then obtain r where "s = ''```sql'' @ r" by (auto simp: startswith_iff)
  then have "s = ''```'' @ (''sql'' @ r)" by simp
  then show ?thesis unfolding startswith_iff by blast
qed

lemma sub_sql_fence_no_fence: "\<not> contains ''```'' s \<Longrightarrow> sub_sql_fence s = s"
proof (induction s)
  case Nil
  then show ?case by simp
next
  case (Cons c cs)
  then have "\<not> startswith (c # cs) ''```''" and "\<not> contains ''```'' cs" by simp_all
  then have "\<not> startswith (c # cs) ''```sql''" and "sub_sql_fence cs = cs"
    using startswith_sql_fence Cons.IH by blast+
  then show ?case by (simp only: sub_sql_fence.simps if_False)
qed

lemma select_here_SELECT: "select_here (''SELECT'' @ b)"
proof -
  have "lower ''SELECT'' = ''select''" by code_simp
  moreover have "take 6 (''SELECT'' @ b) = ''SELECT''" by simp
  ultimately show ?thesis by (simp only: select_here_def)
qed

text \<open>
  The claim C4 as the specification states it fails in its second half: a raw text
  without the word can get it when a fence marker between two halves of the word is
  removed, and then the result is not empty.
\<close>

theorem extract_sql_no_select_counterexample:
  "\<not> contains ''select'' (lower ''SEL```ECT'') \<and> extract_sql ''SEL```ECT'' \<noteq> []"
  by code_simp

text \<open>
  C4, amended: the result of \<open>extract_sql\<close> is empty, or it starts with \<open>SELECT\<close> in
  any case and ends with a semicolon; and it is empty whenever the raw text, with its
  fence markers removed, has no occurrence of \<open>SELECT\<close> in any case.
\<close>

theorem extract_sql_shape:
  "(extract_sql raw = [] \<or>
      (startswith (lower (extract_sql raw)) ''select'' \<and> endswith (extract_sql raw) '';'')) \<and>
   (\<not> contains ''select'' (lower (sub_fence (sub_sql_fence raw))) \<longrightarrow> extract_sql raw = [])"
proof -
  let ?r = "sub_fence (sub_sql_fence raw)"
  show ?thesis
  proof (cases "search_select_semi ?r")
    case (Some m)
    then have "extract_sql raw = m" by (rule extract_sql_semi)
    moreover have "select_here m \<and> endswith m '';''"
      using Some by (rule search_select_semi_Some)
    moreover have "contains ''select'' (lower ?r)"
      using Some by (rule search_select_semi_contains)
    ultimately show ?thesis by (simp add: select_here_lower)
  next
    case None
    show ?thesis
    proof (cases "search_select_rest ?r")
      case (Some m)
      have "contains ''select'' (lower ?r)" using Some by (rule search_select_rest_contains)
      then show ?thesis
        using extract_sql_rest(2,3) [OF None Some] by (simp add: select_here_lower)
    next
      case n: None
      show ?thesis using extract_sql_none [OF None n] by simp
    qed
  qed
qed

theorem extract_sql_shape_witness:
  "\<not> contains ''select'' (lower (sub_fence (sub_sql_fence ''I cannot answer that.''))) \<and>
   extract_sql ''I cannot answer that.'' = [] \<and>
   extract_sql ''Here: select a from t where b = 1'' = ''select a from t where b = 1;''"
proof -
  have h: "\<not> contains ''select'' (lower (sub_fence (sub_sql_fence ''I cannot answer that.'')))"
    by code_simp
  have e: "extract_sql ''Here: select a from t where b = 1'' = ''select a from t where b = 1;''"
    by code_simp
  show ?thesis using h e extract_sql_shape [of "''I cannot answer that.''"] by blast
qed


text \<open>
  The claim C5 as the specification states it fails on a text with two statements: the
  result is the first one.
\<close>

theorem extract_sql_idempotent_counterexample:
  "startswith ''SELECT 1; SELECT 2;'' ''SELECT'' \<and> endswith ''SELECT 1; SELECT 2;'' '';'' \<and>
   \<not> contains ''```'' ''SELECT 1; SELECT 2;'' \<and>
   extract_sql ''SELECT 1; SELECT 2;'' \<noteq> ''SELECT 1; SELECT 2;''"
  by code_simp

text \<open>
  C5, amended: a candidate that starts with \<open>SELECT\<close>, ends with a semicolon, has no
  fence marker and no semicolon before its last character is returned as it is.
\<close>

theorem extract_sql_idempotent:
  assumes "startswith candidate ''SELECT''" and "endswith candidate '';''"
    and "\<not> contains ''```'' candidate" and "CHR '';'' \<notin> set (butlast candidate)"
  shows "extract_sql candidate = candidate"
proof -
  obtain b where b: "candidate = ''SELECT'' @ b" using assms(1) by (auto simp: startswith_iff)
  obtain r where r: "candidate = r @ '';''" using assms(2) by (auto simp: endswith_iff)
  have "b \<noteq> []"
  proof
    assume "b = []"
    then have "last candidate = CHR ''T''" using b by simp
    moreover have "last candidate = CHR '';''" using r by simp
    ultimately show False by simp
  qed
  then have "last b = CHR '';''" using b r by (metis last_appendR last_snoc)
  then have bl: "b = butlast b @ '';''" using \<open>b \<noteq> []\<close> by (metis append_butlast_last_id)
  have "butlast candidate = ''SELECT'' @ butlast b"
    using b \<open>b \<noteq> []\<close> by (simp add: butlast_append)
  then have no: "\<forall>x\<in>set (butlast b). x \<noteq> CHR '';''" using assms(4) by auto
  have tw: "takeWhile (\<lambda>c. c \<noteq> CHR '';'') b = butlast b"
    using no by (subst bl) simp
  have lt: "length (butlast b) < length b" using \<open>b \<noteq> []\<close> by simp
  have sh: "select_here candidate" unfolding b by (rule select_here_SELECT)
  have t6: "take 6 candidate = ''SELECT''" and d6: "drop 6 candidate = b"
    using b by simp_all
  have "match_select_semi candidate = Some (take 6 candidate @ butlast b @ '';'')"
    using sh lt by (simp add: match_select_semi_def d6 tw Let_def)
  also have "take 6 candidate @ butlast b @ '';'' = candidate"
    unfolding t6 using b bl by simp
  finally have "match_select_semi candidate = Some candidate" .
  moreover have "candidate = CHR ''S'' # tl candidate" using b by simp
  ultimately have "search_select_semi candidate = Some candidate"
    by (metis option.simps(5) search_select_semi.simps(2))
  then have "search_select_semi (sub_fence (sub_sql_fence candidate)) = Some candidate"
    using assms(3) by (simp add: sub_fence_no_fence sub_sql_fence_no_fence)
  then show ?thesis by (rule extract_sql_semi)
qed

theorem extract_sql_idempotent_witness:
  "startswith ''SELECT * FROM t LIMIT 5;'' ''SELECT'' \<and> endswith ''SELECT * FROM t LIMIT 5;'' '';'' \<and>
   \<not> contains ''```'' ''SELECT * FROM t LIMIT 5;'' \<and>
   CHR '';'' \<notin> set (butlast ''SELECT * FROM t LIMIT 5;'') \<and>
   extract_sql ''SELECT * FROM t LIMIT 5;'' = ''SELECT * FROM t LIMIT 5;''"
proof -
  have h1: "startswith ''SELECT * FROM t LIMIT 5;'' ''SELECT''" by code_simp
  have h2: "endswith ''SELECT * FROM t LIMIT 5;'' '';''" by code_simp
  have h3: "\<not> contains ''```'' ''SELECT * FROM t LIMIT 5;''" by code_simp
  have h4: "CHR '';'' \<notin> set (butlast ''SELECT * FROM t LIMIT 5;'')" by simp
  show ?thesis using h1 h2 h3 h4 extract_sql_idempotent [OF h1 h2 h3 h4] by simp
qed

end
